theory Spec2Isabelle
  imports Main "HOL-Library.Sublist"
begin

section \<open>The free-slot computation of the availability webhook\<close>

text \<open>
  The source is \<^verbatim>\<open>src/app.py\<close>, handler \<^verbatim>\<open>check_availability\<close>. Its only
  computation is the loop of lines 85 to 109:
  \<^verbatim>\<open>
        free_slots = []
        current = start_time
        while current < end_time:
            slot_end = current + timedelta(hours=1)
            is_free = True
            for busy in busy_slots:
                busy_start = datetime.fromisoformat(busy['start'].replace('Z', ''))
                busy_end = datetime.fromisoformat(busy['end'].replace('Z', ''))
                if current < busy_end and slot_end > busy_start:
                    is_free = False
                    break
            if is_free:
                free_slots.append({'start': ..., 'end': ..., 'display': ...})
            current = slot_end
  \<close>
  A naive \<^verbatim>\<open>datetime\<close> is modelled as an \<^typ>\<open>int\<close>, the number of microseconds
  since the first instant of the calendar (the resolution of \<^verbatim>\<open>datetime\<close>), and
  a \<^verbatim>\<open>timedelta\<close> as an \<^typ>\<open>int\<close> number of microseconds. A free slot is the
  pair \<^verbatim>\<open>(current, slot_end)\<close> that the three formatted strings of the
  dictionary are printed from. The request parsing before the loop, the calendar query
  and the JSON response after it are not part of the model.

  The loop is modelled twice. The first model takes the busy entries after
  \<^verbatim>\<open>fromisoformat\<close>, as pairs of naive timestamps, and has the window and the step
  as parameters; the handler is its instance at the window from 9 to 18 o'clock of
  \<^verbatim>\<open>target_date\<close> and the step of one hour, the only window and step the handler
  runs the loop with. The second model is the handler's loop on the busy entries as the
  calendar answer gives them, where reading a field and comparing it can raise; the
  exception leaves the loop and the handler's \<^verbatim>\<open>except\<close> clause (line 119) turns
  it into the HTTP 500 answer.

  A \<^verbatim>\<open>datetime\<close> of Python ends with the year 9999 and an addition beyond it
  raises \<^verbatim>\<open>OverflowError\<close>. The handler adds one hour to times between 9 and 17
  o'clock of one day, which never leaves that day, so the timestamps of the model are
  unbounded integers.
\<close>

subsection \<open>Data\<close>

record time_window =
  start_time :: int
  end_time :: int

record busy_slot =
  busy_start :: int
  busy_end :: int

record free_slot =
  slot_start :: int
  slot_end :: int

subsection \<open>The loop\<close>

text \<open>
  The inner \<^verbatim>\<open>for\<close> loop with its \<^verbatim>\<open>break\<close>: the first busy entry that
  overlaps the candidate decides, the others are not looked at.
\<close>

fun is_free :: "int \<Rightarrow> int \<Rightarrow> busy_slot list \<Rightarrow> bool" where
  "is_free current slot_end_v [] = True"
| "is_free current slot_end_v (busy # rest) =
     (if current < busy_end busy \<and> slot_end_v > busy_start busy then False
      else is_free current slot_end_v rest)"

text \<open>
  The \<^verbatim>\<open>while\<close> loop. The source steps by the literal \<^verbatim>\<open>timedelta(hours=1)\<close>;
  here the step is the parameter \<open>slot_duration\<close>. The guard \<^verbatim>\<open>current < end_time\<close>
  is the only exit, so with a step that is not positive the loop never leaves through
  it: in Python a step of zero runs forever and a negative step walks back to the first
  year of \<^verbatim>\<open>datetime\<close>, where the addition raises \<^verbatim>\<open>OverflowError\<close>. The function
  is partial, and \<open>None\<close> stands for both: a run that returns no list of slots. The
  handler's step is positive, and every statement below about a result is for a
  positive step.
\<close>

partial_function (option) free_slots_loop ::
  "int \<Rightarrow> int \<Rightarrow> busy_slot list \<Rightarrow> int \<Rightarrow> free_slot list \<Rightarrow> free_slot list option" where
  "free_slots_loop slot_duration end_t busy_slots current free_slots =
     (if current < end_t then
        free_slots_loop slot_duration end_t busy_slots (current + slot_duration)
          (if is_free current (current + slot_duration) busy_slots
           then free_slots @ [\<lparr>slot_start = current, slot_end = current + slot_duration\<rparr>]
           else free_slots)
      else Some free_slots)"

declare free_slots_loop.simps [code]

text \<open>
  The loop started as the source starts it: \<^verbatim>\<open>free_slots = []\<close>,
  \<^verbatim>\<open>current = start_time\<close>.
\<close>

definition compute_free_slots ::
  "time_window \<Rightarrow> busy_slot list \<Rightarrow> int \<Rightarrow> free_slot list option" where
  "compute_free_slots window busy_slots slot_duration =
     free_slots_loop slot_duration (end_time window) busy_slots (start_time window) []"

subsection \<open>The handler's window\<close>

definition timedelta :: "int \<Rightarrow> int \<Rightarrow> int" where
  "timedelta hours minutes = (hours * 60 + minutes) * 60000000"

text \<open>
  \<^verbatim>\<open>target_date.replace(hour=h, minute=0, second=0, microsecond=0)\<close>: the same day,
  at \<open>h\<close> o'clock.
\<close>

definition replace_hour :: "int \<Rightarrow> int \<Rightarrow> int" where
  "replace_hour target_date h = target_date - target_date mod timedelta 24 0 + timedelta h 0"

text \<open>
  Lines 67 to 69 and 85 to 109 of the handler: working hours from 9 to 18, slots of one
  hour.
\<close>

definition check_availability :: "int \<Rightarrow> busy_slot list \<Rightarrow> free_slot list option" where
  "check_availability target_date busy_slots =
     compute_free_slots
       \<lparr>start_time = replace_hour target_date 9, end_time = replace_hour target_date 18\<rparr>
       busy_slots (timedelta 1 0)"

subsection \<open>The handler's loop on the busy entries as received\<close>













subsection \<open>The candidates the loop visits\<close>

text \<open>
  Specification-side names, used to state what the loop computes: the \<open>i\<close>-th candidate
  from \<open>current\<close>, the number of candidates the guard lets through (the window length
  divided by the step, rounded up), and the overlap test on a slot.
\<close>

definition candidate :: "int \<Rightarrow> int \<Rightarrow> nat \<Rightarrow> free_slot" where
  "candidate slot_duration current i =
     \<lparr>slot_start = current + int i * slot_duration,
      slot_end = current + int i * slot_duration + slot_duration\<rparr>"

definition candidate_count :: "int \<Rightarrow> int \<Rightarrow> int \<Rightarrow> nat" where
  "candidate_count slot_duration end_t current =
     nat ((end_t - current + slot_duration - 1) div slot_duration)"

definition slot_is_free :: "busy_slot list \<Rightarrow> free_slot \<Rightarrow> bool" where
  "slot_is_free busy_slots s = is_free (slot_start s) (slot_end s) busy_slots"

definition overlaps :: "free_slot \<Rightarrow> busy_slot \<Rightarrow> bool" where
  "overlaps s b \<longleftrightarrow> slot_start s < busy_end b \<and> slot_end s > busy_start b"

section \<open>What the loop computes\<close>

lemma is_free_iff:
  "is_free c se bs \<longleftrightarrow> (\<forall>b \<in> set bs. \<not> (c < busy_end b \<and> se > busy_start b))"
  by (induction bs) auto

lemma slot_is_free_iff:
  "slot_is_free bs s \<longleftrightarrow> (\<forall>b \<in> set bs. \<not> overlaps s b)"
  by (simp add: slot_is_free_def is_free_iff overlaps_def)

lemma candidate_count_done:
  assumes d: "0 < d" and ge: "\<not> cur < e"
  shows "candidate_count d e cur = 0"
proof -
  have "(e - cur + d - 1) div d \<le> (d - 1) div d"
    using d ge by (intro zdiv_mono1) simp_all
  also have "(d - 1) div d = 0"
    using d by (simp add: div_pos_pos_trivial)
  finally show ?thesis
    unfolding candidate_count_def by simp
qed

lemma candidate_count_step:
  assumes "0 < d" "cur < e"
  shows "candidate_count d e cur = Suc (candidate_count d e (cur + d))"
proof -
  have "e - cur + d - 1 = (e - (cur + d) + d - 1) + d"
    by simp
  then have "(e - cur + d - 1) div d = (e - (cur + d) + d - 1) div d + 1"
    using assms by (simp only: div_add_self2)
  moreover have "0 \<le> (e - (cur + d) + d - 1) div d"
    using assms by (simp add: pos_imp_zdiv_nonneg_iff)
  ultimately show ?thesis
    unfolding candidate_count_def by simp
qed

lemma candidates_step:
  "map (candidate d cur) [0..<Suc n] = candidate d cur 0 # map (candidate d (cur + d)) [0..<n]"
proof -
  have "map (candidate d cur) [0..<Suc n] =
      candidate d cur 0 # map (candidate d cur \<circ> Suc) [0..<n]"
    by (simp add: upt_conv_Cons map_Suc_upt [symmetric] del: upt_Suc)
  moreover have "candidate d cur \<circ> Suc = candidate d (cur + d)"
    by (rule ext) (simp add: candidate_def algebra_simps)
  ultimately show ?thesis by simp
qed

text \<open>
  With a positive step the loop returns, and what it returns is its accumulator followed
  by the candidates that pass the overlap test, in the order visited.
\<close>

lemma free_slots_loop_eq:
  assumes "0 < d"
  shows "free_slots_loop d e bs cur acc =
    Some (acc @ filter (slot_is_free bs) (map (candidate d cur) [0..<candidate_count d e cur]))"
  using assms
proof (induction "candidate_count d e cur" arbitrary: cur acc)
  case 0
  then have "\<not> cur < e"
    using candidate_count_step by fastforce
  with 0 show ?case
    by (subst free_slots_loop.simps) simp
next
  case (Suc n)
  then have lt: "cur < e"
    using candidate_count_done by fastforce
  then have n: "n = candidate_count d e (cur + d)"
    using Suc candidate_count_step by fastforce
  have c0: "candidate d cur 0 = \<lparr>slot_start = cur, slot_end = cur + d\<rparr>"
    by (simp add: candidate_def)
  show ?case
    apply (subst free_slots_loop.simps)
    apply (simp only: lt if_True Suc.hyps(1) [OF n Suc.prems])
    apply (simp only: Suc.hyps(2) [symmetric] candidates_step n [symmetric])
    apply (simp add: c0 slot_is_free_def)
    done
qed

lemma compute_free_slots_eq:
  assumes "0 < d"
  shows "compute_free_slots w bs d =
    Some (filter (slot_is_free bs)
      (map (candidate d (start_time w)) [0..<candidate_count d (end_time w) (start_time w)]))"
  unfolding compute_free_slots_def by (simp add: free_slots_loop_eq [OF assms])

text \<open>An empty window: the guard fails at once, whatever the step.\<close>

lemma free_slots_loop_empty_window:
  "\<not> cur < e \<Longrightarrow> free_slots_loop d e bs cur acc = Some acc"
  by (subst free_slots_loop.simps) simp

text \<open>
  A step that is not positive, in a window that is not empty: the loop returns no list.
\<close>

lemma free_slots_loop_returns_only_if:
  assumes "free_slots_loop d e bs cur acc = Some r"
  shows "\<not> (d \<le> 0 \<and> cur < e)"
proof (rule free_slots_loop.raw_induct
    [where P = "\<lambda>d e bs cur acc r. \<not> (d \<le> 0 \<and> cur < e)", OF _ assms])
  fix f :: "int \<Rightarrow> int \<Rightarrow> busy_slot list \<Rightarrow> int \<Rightarrow> free_slot list \<Rightarrow> free_slot list option"
  fix d e bs cur acc r
  assume IH: "\<And>d e bs cur acc r. f d e bs cur acc = Some r \<Longrightarrow> \<not> (d \<le> 0 \<and> cur < e)"
  assume body: "(if cur < e then
        f d e bs (cur + d)
          (if is_free cur (cur + d) bs
           then acc @ [\<lparr>slot_start = cur, slot_end = cur + d\<rparr>]
           else acc)
      else Some acc) = Some r"
  show "\<not> (d \<le> 0 \<and> cur < e)"
  proof
    assume h: "d \<le> 0 \<and> cur < e"
    with body have "f d e bs (cur + d)
          (if is_free cur (cur + d) bs
           then acc @ [\<lparr>slot_start = cur, slot_end = cur + d\<rparr>]
           else acc) = Some r"
      by simp
    then have "\<not> (d \<le> 0 \<and> cur + d < e)"
      by (rule IH)
    with h show False by simp
  qed
qed

lemma free_slots_loop_no_list:
  "d \<le> 0 \<Longrightarrow> cur < e \<Longrightarrow> free_slots_loop d e bs cur acc = None"
  using free_slots_loop_returns_only_if [of d e bs cur acc]
  by (cases "free_slots_loop d e bs cur acc") auto

text \<open>Arithmetic of the candidates: where they start and end, and how many there are.\<close>

lemma candidate_start_lt:
  assumes d: "0 < d" and i: "i < candidate_count d e cur"
  shows "cur + int i * d < e"
proof -
  from i have "int i + 1 \<le> (e - cur + d - 1) div d"
    unfolding candidate_count_def by linarith
  then have "(int i + 1) * d \<le> (e - cur + d - 1) div d * d"
    using d by (simp add: mult_right_mono)
  also have "\<dots> = (e - cur + d - 1) - (e - cur + d - 1) mod d"
    by (simp only: minus_mod_eq_div_mult)
  also have "\<dots> \<le> e - cur + d - 1"
    using pos_mod_sign [OF d, of "e - cur + d - 1"] by linarith
  finally show ?thesis
    by (simp add: algebra_simps)
qed

lemma candidate_count_dvd:
  assumes d: "0 < d" and dvd: "d dvd e - cur"
  shows "candidate_count d e cur = nat ((e - cur) div d)"
proof -
  from dvd obtain k where k: "e - cur = d * k" ..
  have "(d * k + (d - 1)) div d = k + (d - 1) div d"
    using d by simp
  also have "(d - 1) div d = 0"
    using d by simp
  finally have "(e - cur + d - 1) div d = k"
    using k by (simp add: algebra_simps)
  moreover have "(e - cur) div d = k"
    using k d by simp
  ultimately show ?thesis
    unfolding candidate_count_def by simp
qed

lemma candidate_end_le:
  assumes d: "0 < d" and dvd: "d dvd e - cur" and i: "i < candidate_count d e cur"
  shows "cur + int i * d + d \<le> e"
proof -
  from dvd obtain k where k: "e - cur = d * k" ..
  then have "(e - cur) div d = k"
    using d by simp
  with i have "int i + 1 \<le> k"
    using candidate_count_dvd [OF d dvd] by linarith
  then have "(int i + 1) * d \<le> k * d"
    using d by (simp add: mult_right_mono)
  with k show ?thesis
    by (simp add: algebra_simps)
qed

lemma candidate_end_le_start:
  assumes "0 < d" "i < j"
  shows "slot_end (candidate d cur i) \<le> slot_start (candidate d cur j)"
proof -
  from assms(2) have "int i + 1 \<le> int j" by simp
  then have "(int i + 1) * d \<le> int j * d"
    using assms(1) by (simp add: mult_right_mono)
  then show ?thesis
    by (simp add: candidate_def algebra_simps)
qed

lemma result_slot_bounds:
  assumes d: "0 < d"
    and s: "s \<in> set (filter (slot_is_free bs)
      (map (candidate d cur) [0..<candidate_count d e cur]))"
  shows "slot_end s - slot_start s = d" "cur \<le> slot_start s" "slot_start s < e"
    "d dvd e - cur \<Longrightarrow> slot_end s \<le> e"
proof -
  from s obtain i where i: "i < candidate_count d e cur" and eq: "s = candidate d cur i"
    by auto
  show "slot_end s - slot_start s = d"
    by (simp add: eq candidate_def)
  show "cur \<le> slot_start s"
    using d by (simp add: eq candidate_def)
  show "slot_start s < e"
    using candidate_start_lt [OF d i] by (simp add: eq candidate_def)
  show "slot_end s \<le> e" if "d dvd e - cur"
    using candidate_end_le [OF d that i] by (simp add: eq candidate_def)
qed

text \<open>Without busy entries every candidate is kept.\<close>

lemma slot_is_free_Nil: "slot_is_free [] = (\<lambda>s. True)"
  by (rule ext) (simp add: slot_is_free_def)

lemma compute_free_slots_no_busy:
  assumes "0 < d"
  shows "compute_free_slots w [] d =
    Some (map (candidate d (start_time w)) [0..<candidate_count d (end_time w) (start_time w)])"
  by (simp add: compute_free_slots_eq [OF assms] slot_is_free_Nil)

text \<open>
  The busy entry that covers exactly the first candidate overlaps that candidate and no
  other one.
\<close>

lemma first_candidate_busy:
  assumes d: "0 < d"
  shows "filter (slot_is_free [\<lparr>busy_start = cur, busy_end = cur + d\<rparr>])
      (map (candidate d cur) [0..<n]) = tl (map (candidate d cur) [0..<n])"
proof (cases n)
  case 0
  then show ?thesis by simp
next
  case (Suc m)
  have first: "\<not> slot_is_free [\<lparr>busy_start = cur, busy_end = cur + d\<rparr>] (candidate d cur 0)"
    using d by (simp add: slot_is_free_def candidate_def)
  have rest: "slot_is_free [\<lparr>busy_start = cur, busy_end = cur + d\<rparr>] (candidate d (cur + d) i)" for i
  proof -
    have "0 \<le> int i * d"
      using d by simp
    then show ?thesis
      by (simp add: slot_is_free_def candidate_def)
  qed
  show ?thesis
    unfolding Suc candidates_step
    using first rest by simp
qed

text \<open>The result of the overlap test depends on the set of busy entries only.\<close>

lemma slot_is_free_set_cong:
  "set bs = set bs' \<Longrightarrow> slot_is_free bs = slot_is_free bs'"
  by (rule ext) (simp add: slot_is_free_iff)

lemma free_slots_loop_set_cong:
  assumes "set bs = set bs'"
  shows "free_slots_loop d e bs cur acc = free_slots_loop d e bs' cur acc"
proof (cases "0 < d")
  case True
  then show ?thesis
    by (simp add: free_slots_loop_eq slot_is_free_set_cong [OF assms])
next
  case False
  then have d: "d \<le> 0" by simp
  show ?thesis
  proof (cases "cur < e")
    case True
    then show ?thesis
      by (simp add: free_slots_loop_no_list [OF d])
  next
    case False
    then show ?thesis
      by (simp add: free_slots_loop_empty_window)
  qed
qed

lemma slot_is_free_insert:
  assumes "set bs' = insert b (set bs)"
  shows "slot_is_free bs' s \<longleftrightarrow> slot_is_free bs s \<and> \<not> overlaps s b"
  using assms by (auto simp add: slot_is_free_iff)

text \<open>
  A busy interval that ends at or before the first candidate, or starts at or after the
  end of a window that the step divides, overlaps no candidate.
\<close>

lemma busy_outside_candidates:
  assumes d: "0 < d"
    and add: "set bs' = insert b (set bs)"
    and outside: "busy_end b \<le> cur \<or> e \<le> busy_start b"
    and dvd: "d dvd e - cur"
  shows "filter (slot_is_free bs') (map (candidate d cur) [0..<candidate_count d e cur]) =
    filter (slot_is_free bs) (map (candidate d cur) [0..<candidate_count d e cur])"
proof -
  let ?cands = "map (candidate d cur) [0..<candidate_count d e cur]"
  have "\<not> overlaps s b" if s: "s \<in> set ?cands" for s
  proof -
    from s have s': "s \<in> set (filter (slot_is_free []) ?cands)"
      by (simp add: slot_is_free_def)
    from outside show ?thesis
    proof
      assume "busy_end b \<le> cur"
      with result_slot_bounds(2) [OF d s'] show ?thesis
        by (simp add: overlaps_def)
    next
      assume "e \<le> busy_start b"
      with result_slot_bounds(4) [OF d s' dvd] show ?thesis
        by (simp add: overlaps_def)
    qed
  qed
  then show ?thesis
    by (intro filter_cong refl) (simp add: slot_is_free_insert [OF add])
qed

subsection \<open>The handler\<close>

text \<open>
  The handler's window has nine hours and its step is one hour: the loop visits the nine
  candidates from 9 to 18 o'clock, whatever the date and the busy entries.
\<close>

lemma handler_step_pos: "0 < timedelta 1 0"
  by (simp add: timedelta_def)

lemma handler_window_length:
  "replace_hour target_date 18 - replace_hour target_date 9 = 9 * timedelta 1 0"
  by (simp add: replace_hour_def timedelta_def)

lemma handler_step_dvd:
  "timedelta 1 0 dvd replace_hour target_date 18 - replace_hour target_date 9"
  by (simp add: handler_window_length)

lemma handler_candidate_count:
  "candidate_count (timedelta 1 0) (replace_hour target_date 18) (replace_hour target_date 9) = 9"
  using candidate_count_dvd [OF handler_step_pos handler_step_dvd, of target_date]
  by (simp add: handler_window_length handler_step_pos [THEN less_imp_neq, symmetric])

lemma check_availability_eq:
  "check_availability target_date busy_slots =
    Some (filter (slot_is_free busy_slots)
      (map (candidate (timedelta 1 0) (replace_hour target_date 9)) [0..<9]))"
  unfolding check_availability_def
  by (simp add: compute_free_slots_eq [OF handler_step_pos] handler_candidate_count)

lemma check_availability_scenario:
  "check_availability target_date
     [\<lparr>busy_start = replace_hour target_date 9,
       busy_end = replace_hour target_date 10 + timedelta 0 30\<rparr>] =
   Some (map (\<lambda>h. \<lparr>slot_start = replace_hour target_date h,
       slot_end = replace_hour target_date (h + 1)\<rparr>) [11, 12, 13, 14, 15, 16, 17])"
  by (simp add: check_availability_def compute_free_slots_def replace_hour_def timedelta_def
      free_slots_loop.simps)

subsection \<open>The loop on the entries as received\<close>




section \<open>The claims\<close>

text \<open>
  C1. For every window, every list of busy intervals and every positive slot duration,
  the computation returns, and no slot of its result overlaps a busy interval: there is
  no busy interval \<open>b\<close> with \<open>slot.start < b.end\<close> and \<open>slot.end > b.start\<close>.
\<close>

theorem free_slots_overlap_no_busy:
  assumes "0 < slot_duration"
  shows "\<exists>free_slots. compute_free_slots window busy_slots slot_duration = Some free_slots \<and>
    (\<forall>s \<in> set free_slots. \<forall>b \<in> set busy_slots.
       \<not> (slot_start s < busy_end b \<and> slot_end s > busy_start b))"
  using assms
  by (simp add: compute_free_slots_eq slot_is_free_iff overlaps_def)

theorem free_slots_overlap_no_busy_witness:
  "(0::int) < 60 \<and>
   compute_free_slots \<lparr>start_time = 540, end_time = 720\<rparr>
     [\<lparr>busy_start = 600, busy_end = 630\<rparr>] 60 =
     Some [\<lparr>slot_start = 540, slot_end = 600\<rparr>, \<lparr>slot_start = 660, slot_end = 720\<rparr>] \<and>
   (\<exists>free_slots.
      compute_free_slots \<lparr>start_time = 540, end_time = 720\<rparr>
        [\<lparr>busy_start = 600, busy_end = 630\<rparr>] 60 = Some free_slots \<and>
      (\<forall>s \<in> set free_slots. \<forall>b \<in> set [\<lparr>busy_start = 600, busy_end = 630\<rparr>].
         \<not> (slot_start s < busy_end b \<and> slot_end s > busy_start b)))"
proof -
  have pos: "(0::int) < 60" by simp
  have run: "compute_free_slots \<lparr>start_time = 540, end_time = 720\<rparr>
     [\<lparr>busy_start = 600, busy_end = 630\<rparr>] 60 =
     Some [\<lparr>slot_start = 540, slot_end = 600\<rparr>, \<lparr>slot_start = 660, slot_end = 720\<rparr>]"
    by (simp add: compute_free_slots_def free_slots_loop.simps)
  show ?thesis
    using pos run
      free_slots_overlap_no_busy [OF pos, of "\<lparr>start_time = 540, end_time = 720\<rparr>"
        "[\<lparr>busy_start = 600, busy_end = 630\<rparr>]"]
    by simp
qed



text \<open>
  C3. Without busy intervals the result has
  \<open>floor ((window.end - window.start) / slot_duration)\<close> slots, and they are contiguous,
  non-overlapping and in chronological order. For the handler's window and step, on
  every target date: the computation returns; the length of the result is the window
  length divided by the slot duration (nine); the \<open>i\<close>-th slot starts \<open>i\<close> slot
  durations after the start of the window; each slot ends where the next one starts;
  and every slot ends at or before the start of every later one.
\<close>

theorem handler_no_busy_nine_slots:
  "\<exists>free_slots. check_availability target_date [] = Some free_slots \<and>
    int (length free_slots) =
      (replace_hour target_date 18 - replace_hour target_date 9) div timedelta 1 0 \<and>
    (\<forall>i < length free_slots. free_slots ! i =
       \<lparr>slot_start = replace_hour target_date 9 + int i * timedelta 1 0,
        slot_end = replace_hour target_date 9 + int i * timedelta 1 0 + timedelta 1 0\<rparr>) \<and>
    (\<forall>i. Suc i < length free_slots \<longrightarrow>
       slot_end (free_slots ! i) = slot_start (free_slots ! Suc i)) \<and>
    sorted_wrt (\<lambda>a b. slot_end a \<le> slot_start b) free_slots"
proof -
  let ?fs = "map (candidate (timedelta 1 0) (replace_hour target_date 9)) [0..<9]"
  have run: "check_availability target_date [] = Some ?fs"
    by (simp add: check_availability_eq slot_is_free_Nil)
  have len: "int (length ?fs) =
      (replace_hour target_date 18 - replace_hour target_date 9) div timedelta 1 0"
    using handler_step_pos by (simp add: handler_window_length)
  have nth: "\<forall>i < length ?fs. ?fs ! i =
       \<lparr>slot_start = replace_hour target_date 9 + int i * timedelta 1 0,
        slot_end = replace_hour target_date 9 + int i * timedelta 1 0 + timedelta 1 0\<rparr>"
    by (simp add: candidate_def del: upt_Suc)
  have contiguous: "\<forall>i. Suc i < length ?fs \<longrightarrow> slot_end (?fs ! i) = slot_start (?fs ! Suc i)"
    by (simp add: candidate_def algebra_simps del: upt_Suc)
  have ordered: "sorted_wrt (\<lambda>a b. slot_end a \<le> slot_start b) ?fs"
    unfolding sorted_wrt_iff_nth_less
    using candidate_end_le_start [OF handler_step_pos] by (simp del: upt_Suc)
  from run len nth contiguous ordered show ?thesis
    by blast
qed


theorem handler_no_busy_nine_slots_witness:
  "\<exists>free_slots. check_availability 0 [] = Some free_slots \<and>
     length free_slots = 9 \<and>
     free_slots ! 8 = \<lparr>slot_start = timedelta 17 0, slot_end = timedelta 18 0\<rparr> \<and>
     slot_end (free_slots ! 7) = slot_start (free_slots ! Suc 7) \<and>
     sorted_wrt (\<lambda>a b. slot_end a \<le> slot_start b) free_slots"
proof -
  have run: "check_availability 0 [] =
    Some (map (\<lambda>h. \<lparr>slot_start = timedelta h 0, slot_end = timedelta (h + 1) 0\<rparr>)
      [9, 10, 11, 12, 13, 14, 15, 16, 17])"
    by (simp add: check_availability_def compute_free_slots_def replace_hour_def timedelta_def
        free_slots_loop.simps)
  show ?thesis
    using run handler_no_busy_nine_slots [of 0]
    by simp
qed




text \<open>
  C5, as stated: for the window from 09:00 to 18:00, the busy interval from 09:00 to 10:30
  and slots of one hour, the result is the seven slots from 10:30 to 17:30. The loop
  steps from the start of the window by whole slots and does not restart at the end of
  a busy interval.
\<close>

theorem scenario_is_not_half_past:
  "compute_free_slots \<lparr>start_time = timedelta 9 0, end_time = timedelta 18 0\<rparr>
     [\<lparr>busy_start = timedelta 9 0, busy_end = timedelta 10 30\<rparr>] (timedelta 1 0) \<noteq>
   Some
    [\<lparr>slot_start = timedelta 10 30, slot_end = timedelta 11 30\<rparr>,
     \<lparr>slot_start = timedelta 11 30, slot_end = timedelta 12 30\<rparr>,
     \<lparr>slot_start = timedelta 12 30, slot_end = timedelta 13 30\<rparr>,
     \<lparr>slot_start = timedelta 13 30, slot_end = timedelta 14 30\<rparr>,
     \<lparr>slot_start = timedelta 14 30, slot_end = timedelta 15 30\<rparr>,
     \<lparr>slot_start = timedelta 15 30, slot_end = timedelta 16 30\<rparr>,
     \<lparr>slot_start = timedelta 16 30, slot_end = timedelta 17 30\<rparr>]"
  by (simp add: compute_free_slots_def timedelta_def free_slots_loop.simps)

text \<open>
  C5, amended. For the window from 09:00 to 18:00, the busy interval from 09:00 to 10:30
  and slots of one hour, the result is the seven slots 11:00-12:00, 12:00-13:00,
  13:00-14:00, 14:00-15:00, 15:00-16:00, 16:00-17:00 and 17:00-18:00.
\<close>

theorem scenario_on_the_hour:
  "compute_free_slots \<lparr>start_time = timedelta 9 0, end_time = timedelta 18 0\<rparr>
     [\<lparr>busy_start = timedelta 9 0, busy_end = timedelta 10 30\<rparr>] (timedelta 1 0) =
   Some
    [\<lparr>slot_start = timedelta 11 0, slot_end = timedelta 12 0\<rparr>,
     \<lparr>slot_start = timedelta 12 0, slot_end = timedelta 13 0\<rparr>,
     \<lparr>slot_start = timedelta 13 0, slot_end = timedelta 14 0\<rparr>,
     \<lparr>slot_start = timedelta 14 0, slot_end = timedelta 15 0\<rparr>,
     \<lparr>slot_start = timedelta 15 0, slot_end = timedelta 16 0\<rparr>,
     \<lparr>slot_start = timedelta 16 0, slot_end = timedelta 17 0\<rparr>,
     \<lparr>slot_start = timedelta 17 0, slot_end = timedelta 18 0\<rparr>]"
  by (simp add: compute_free_slots_def timedelta_def free_slots_loop.simps)

text \<open>
  C6. Every slot of the result satisfies the invariant of a free slot: its length is the
  slot duration, its start is at or after the start of the window and its end is at or
  before the end of the window. For the handler's window (9 to 18 o'clock of the target
  date) and step (one hour), on every target date and every list of busy intervals.
\<close>

theorem handler_free_slot_invariant:
  "\<exists>free_slots. check_availability target_date busy_slots = Some free_slots \<and>
    (\<forall>s \<in> set free_slots.
       slot_end s - slot_start s = timedelta 1 0 \<and>
       replace_hour target_date 9 \<le> slot_start s \<and>
       slot_end s \<le> replace_hour target_date 18)"
  using result_slot_bounds [OF handler_step_pos, of _ busy_slots "replace_hour target_date 9"
      "replace_hour target_date 18"] handler_step_dvd [of target_date]
  by (simp add: check_availability_def compute_free_slots_eq [OF handler_step_pos])

theorem handler_free_slot_invariant_witness:
  "\<exists>free_slots.
     check_availability 0 [\<lparr>busy_start = timedelta 9 0, busy_end = timedelta 16 15\<rparr>] =
       Some free_slots \<and>
     free_slots = [\<lparr>slot_start = timedelta 17 0, slot_end = timedelta 18 0\<rparr>] \<and>
     (\<forall>s \<in> set free_slots.
        slot_end s - slot_start s = timedelta 1 0 \<and>
        replace_hour 0 9 \<le> slot_start s \<and>
        slot_end s \<le> replace_hour 0 18)"
proof -
  have run: "check_availability 0 [\<lparr>busy_start = timedelta 9 0, busy_end = timedelta 16 15\<rparr>] =
    Some [\<lparr>slot_start = timedelta 17 0, slot_end = timedelta 18 0\<rparr>]"
    by (simp add: check_availability_def compute_free_slots_def replace_hour_def timedelta_def
        free_slots_loop.simps)
  show ?thesis
    using run handler_free_slot_invariant [of 0
        "[\<lparr>busy_start = timedelta 9 0, busy_end = timedelta 16 15\<rparr>]"]
    by simp
qed

text \<open>
  C7. For every window and every positive slot duration, the busy list with the single
  interval from \<open>window.start\<close> to \<open>window.start + slot_duration\<close> excludes the first
  candidate only: the result is the result for no busy interval, without its first
  slot.
\<close>

theorem first_slot_busy_drops_first:
  assumes "0 < slot_duration"
  shows "\<exists>free_slots. compute_free_slots window [] slot_duration = Some free_slots \<and>
    compute_free_slots window
      [\<lparr>busy_start = start_time window, busy_end = start_time window + slot_duration\<rparr>]
      slot_duration = Some (tl free_slots)"
proof -
  have "compute_free_slots window
      [\<lparr>busy_start = start_time window, busy_end = start_time window + slot_duration\<rparr>]
      slot_duration =
    Some (tl (map (candidate slot_duration (start_time window))
      [0..<candidate_count slot_duration (end_time window) (start_time window)]))"
    by (simp only: compute_free_slots_eq [OF assms] first_candidate_busy [OF assms])
  with compute_free_slots_no_busy [OF assms, of window] show ?thesis
    by simp
qed


theorem first_slot_busy_drops_first_witness:
  "(0::int) < 60 \<and>
   (\<exists>free_slots.
      compute_free_slots \<lparr>start_time = 540, end_time = 720\<rparr> [] 60 = Some free_slots \<and>
      free_slots \<noteq> [] \<and> tl free_slots \<noteq> [] \<and>
      compute_free_slots \<lparr>start_time = 540, end_time = 720\<rparr>
        [\<lparr>busy_start = 540, busy_end = 600\<rparr>] 60 = Some (tl free_slots))"
proof -
  have pos: "(0::int) < 60" by simp
  have run: "compute_free_slots \<lparr>start_time = 540, end_time = 720\<rparr> [] 60 =
     Some [\<lparr>slot_start = 540, slot_end = 600\<rparr>, \<lparr>slot_start = 600, slot_end = 660\<rparr>,
       \<lparr>slot_start = 660, slot_end = 720\<rparr>]"
    by (simp add: compute_free_slots_def free_slots_loop.simps)
  show ?thesis
    using pos run
      first_slot_busy_drops_first [OF pos, of "\<lparr>start_time = 540, end_time = 720\<rparr>"]
    by simp
qed

text \<open>
  C8. A busy interval \<open>b\<close> that lies outside the window, \<open>b.end \<le> window.start\<close> or
  \<open>b.start \<ge> window.end\<close>, added to the busy intervals (at any place of the list),
  leaves the result unchanged. For the handler's window and step, on every target date
  and every list of busy intervals.
\<close>

theorem handler_busy_outside_window_no_effect:
  assumes add: "set busy_slots' = insert b (set busy_slots)"
    and outside: "busy_end b \<le> replace_hour target_date 9 \<or>
      replace_hour target_date 18 \<le> busy_start b"
  shows "\<exists>free_slots.
    check_availability target_date busy_slots = Some free_slots \<and>
    check_availability target_date busy_slots' = Some free_slots"
  using busy_outside_candidates [OF handler_step_pos add outside handler_step_dvd]
  by (simp add: check_availability_def compute_free_slots_eq [OF handler_step_pos])

theorem handler_busy_outside_window_no_effect_witness:
  "set [\<lparr>busy_start = timedelta 10 0, busy_end = timedelta 17 30\<rparr>,
        \<lparr>busy_start = timedelta 18 0, busy_end = timedelta 19 0\<rparr>] =
     insert \<lparr>busy_start = timedelta 18 0, busy_end = timedelta 19 0\<rparr>
       (set [\<lparr>busy_start = timedelta 10 0, busy_end = timedelta 17 30\<rparr>]) \<and>
   replace_hour 0 18 \<le> busy_start \<lparr>busy_start = timedelta 18 0, busy_end = timedelta 19 0\<rparr> \<and>
   check_availability 0 [\<lparr>busy_start = timedelta 10 0, busy_end = timedelta 17 30\<rparr>] =
     Some [\<lparr>slot_start = timedelta 9 0, slot_end = timedelta 10 0\<rparr>] \<and>
   check_availability 0 [\<lparr>busy_start = timedelta 10 0, busy_end = timedelta 17 30\<rparr>,
        \<lparr>busy_start = timedelta 18 0, busy_end = timedelta 19 0\<rparr>] =
     Some [\<lparr>slot_start = timedelta 9 0, slot_end = timedelta 10 0\<rparr>] \<and>
   set [\<lparr>busy_start = timedelta 10 0, busy_end = timedelta 17 30\<rparr>,
        \<lparr>busy_start = timedelta 8 0, busy_end = timedelta 9 0\<rparr>] =
     insert \<lparr>busy_start = timedelta 8 0, busy_end = timedelta 9 0\<rparr>
       (set [\<lparr>busy_start = timedelta 10 0, busy_end = timedelta 17 30\<rparr>]) \<and>
   busy_end \<lparr>busy_start = timedelta 8 0, busy_end = timedelta 9 0\<rparr> \<le> replace_hour 0 9 \<and>
   check_availability 0 [\<lparr>busy_start = timedelta 10 0, busy_end = timedelta 17 30\<rparr>,
        \<lparr>busy_start = timedelta 8 0, busy_end = timedelta 9 0\<rparr>] =
     Some [\<lparr>slot_start = timedelta 9 0, slot_end = timedelta 10 0\<rparr>]"
proof -
  have add_after: "set [\<lparr>busy_start = timedelta 10 0, busy_end = timedelta 17 30\<rparr>,
        \<lparr>busy_start = timedelta 18 0, busy_end = timedelta 19 0\<rparr>] =
     insert \<lparr>busy_start = timedelta 18 0, busy_end = timedelta 19 0\<rparr>
       (set [\<lparr>busy_start = timedelta 10 0, busy_end = timedelta 17 30\<rparr>])"
    by auto
  have add_before: "set [\<lparr>busy_start = timedelta 10 0, busy_end = timedelta 17 30\<rparr>,
        \<lparr>busy_start = timedelta 8 0, busy_end = timedelta 9 0\<rparr>] =
     insert \<lparr>busy_start = timedelta 8 0, busy_end = timedelta 9 0\<rparr>
       (set [\<lparr>busy_start = timedelta 10 0, busy_end = timedelta 17 30\<rparr>])"
    by auto
  have after: "busy_end \<lparr>busy_start = timedelta 18 0, busy_end = timedelta 19 0\<rparr> \<le> replace_hour 0 9 \<or>
      replace_hour 0 18 \<le> busy_start \<lparr>busy_start = timedelta 18 0, busy_end = timedelta 19 0\<rparr>"
    by (simp add: replace_hour_def timedelta_def)
  have before: "busy_end \<lparr>busy_start = timedelta 8 0, busy_end = timedelta 9 0\<rparr> \<le> replace_hour 0 9 \<or>
      replace_hour 0 18 \<le> busy_start \<lparr>busy_start = timedelta 8 0, busy_end = timedelta 9 0\<rparr>"
    by (simp add: replace_hour_def timedelta_def)
  have run: "check_availability 0 [\<lparr>busy_start = timedelta 10 0, busy_end = timedelta 17 30\<rparr>] =
     Some [\<lparr>slot_start = timedelta 9 0, slot_end = timedelta 10 0\<rparr>]"
    by (simp add: check_availability_def compute_free_slots_def replace_hour_def timedelta_def
        free_slots_loop.simps)
  have bounds: "replace_hour 0 18 \<le> busy_start \<lparr>busy_start = timedelta 18 0, busy_end = timedelta 19 0\<rparr>"
    "busy_end \<lparr>busy_start = timedelta 8 0, busy_end = timedelta 9 0\<rparr> \<le> replace_hour 0 9"
    by (simp_all add: replace_hour_def timedelta_def)
  from handler_busy_outside_window_no_effect [OF add_after after] run
  have run_after: "check_availability 0 [\<lparr>busy_start = timedelta 10 0, busy_end = timedelta 17 30\<rparr>,
        \<lparr>busy_start = timedelta 18 0, busy_end = timedelta 19 0\<rparr>] =
     Some [\<lparr>slot_start = timedelta 9 0, slot_end = timedelta 10 0\<rparr>]"
    by simp
  from handler_busy_outside_window_no_effect [OF add_before before] run
  have run_before: "check_availability 0 [\<lparr>busy_start = timedelta 10 0, busy_end = timedelta 17 30\<rparr>,
        \<lparr>busy_start = timedelta 8 0, busy_end = timedelta 9 0\<rparr>] =
     Some [\<lparr>slot_start = timedelta 9 0, slot_end = timedelta 10 0\<rparr>]"
    by simp
  from add_after bounds(1) run run_after add_before bounds(2) run_before show ?thesis
    by (intro conjI)
qed

text \<open>
  C9. The computation is deterministic: two runs with the same window, the same set of
  busy intervals (in whatever order, and however often, the list gives them) and the same
  slot duration have the same outcome.
\<close>

theorem same_busy_set_same_result:
  assumes "set busy_slots = set busy_slots'"
  shows "compute_free_slots window busy_slots slot_duration =
    compute_free_slots window busy_slots' slot_duration"
  unfolding compute_free_slots_def by (rule free_slots_loop_set_cong [OF assms])

theorem same_busy_set_same_result_witness:
  "set [\<lparr>busy_start = 600, busy_end = 630\<rparr>, \<lparr>busy_start = 540, busy_end = 550\<rparr>] =
     set [\<lparr>busy_start = 540, busy_end = 550\<rparr>, \<lparr>busy_start = 600, busy_end = 630\<rparr>,
       \<lparr>busy_start = 540, busy_end = 550\<rparr>] \<and>
   compute_free_slots \<lparr>start_time = 540, end_time = 720\<rparr>
     [\<lparr>busy_start = 600, busy_end = 630\<rparr>, \<lparr>busy_start = 540, busy_end = 550\<rparr>] 60 =
   compute_free_slots \<lparr>start_time = 540, end_time = 720\<rparr>
     [\<lparr>busy_start = 540, busy_end = 550\<rparr>, \<lparr>busy_start = 600, busy_end = 630\<rparr>,
       \<lparr>busy_start = 540, busy_end = 550\<rparr>] 60 \<and>
   compute_free_slots \<lparr>start_time = 540, end_time = 720\<rparr>
     [\<lparr>busy_start = 600, busy_end = 630\<rparr>, \<lparr>busy_start = 540, busy_end = 550\<rparr>] 60 =
   Some [\<lparr>slot_start = 660, slot_end = 720\<rparr>]"
proof -
  have same: "set [\<lparr>busy_start = 600, busy_end = 630\<rparr>, \<lparr>busy_start = 540, busy_end = 550\<rparr>] =
     set [\<lparr>busy_start = 540, busy_end = 550\<rparr>, \<lparr>busy_start = 600, busy_end = 630\<rparr>,
       \<lparr>busy_start = 540, busy_end = (550::int)\<rparr>]"
    by auto
  have run: "compute_free_slots \<lparr>start_time = 540, end_time = 720\<rparr>
     [\<lparr>busy_start = 600, busy_end = 630\<rparr>, \<lparr>busy_start = 540, busy_end = 550\<rparr>] 60 =
     Some [\<lparr>slot_start = 660, slot_end = 720\<rparr>]"
    by (simp add: compute_free_slots_def free_slots_loop.simps)
  show ?thesis
    using same run
      same_busy_set_same_result [OF same, of "\<lparr>start_time = 540, end_time = 720\<rparr>" 60]
    by simp
qed

text \<open>
  C10. The computation is antitone in the busy intervals: for a positive slot duration,
  with a busy interval \<open>b\<close> added, every slot of the result is a slot of the result
  without \<open>b\<close>, and the slots that remain keep their order (the new result is a
  subsequence of the old one).
\<close>

theorem more_busy_fewer_slots:
  assumes d: "0 < slot_duration"
    and add: "set busy_slots' = insert b (set busy_slots)"
  shows "\<exists>free_slots free_slots'.
    compute_free_slots window busy_slots slot_duration = Some free_slots \<and>
    compute_free_slots window busy_slots' slot_duration = Some free_slots' \<and>
    set free_slots' \<subseteq> set free_slots \<and>
    subseq free_slots' free_slots"
proof -
  let ?cands = "map (candidate slot_duration (start_time window))
      [0..<candidate_count slot_duration (end_time window) (start_time window)]"
  have "slot_is_free busy_slots' = (\<lambda>s. slot_is_free busy_slots s \<and> \<not> overlaps s b)"
    by (rule ext) (rule slot_is_free_insert [OF add])
  then have eq: "filter (slot_is_free busy_slots') ?cands =
      filter (\<lambda>s. \<not> overlaps s b) (filter (slot_is_free busy_slots) ?cands)"
    by (simp add: conj_commute)
  then have sub: "subseq (filter (slot_is_free busy_slots') ?cands)
      (filter (slot_is_free busy_slots) ?cands)"
    by (simp only: subseq_filter_left)
  from eq have "set (filter (slot_is_free busy_slots') ?cands) \<subseteq>
      set (filter (slot_is_free busy_slots) ?cands)"
    by (simp only: set_filter) blast
  with sub show ?thesis
    by (simp only: compute_free_slots_eq [OF d]) blast
qed

theorem more_busy_fewer_slots_witness:
  "(0::int) < 60 \<and>
   set [\<lparr>busy_start = 600, busy_end = 630\<rparr>, \<lparr>busy_start = 700, busy_end = 710\<rparr>] =
     insert \<lparr>busy_start = 700, busy_end = 710\<rparr> (set [\<lparr>busy_start = 600, busy_end = 630\<rparr>]) \<and>
   (\<exists>free_slots free_slots'.
      compute_free_slots \<lparr>start_time = 540, end_time = 720\<rparr>
        [\<lparr>busy_start = 600, busy_end = 630\<rparr>] 60 = Some free_slots \<and>
      compute_free_slots \<lparr>start_time = 540, end_time = 720\<rparr>
        [\<lparr>busy_start = 600, busy_end = 630\<rparr>, \<lparr>busy_start = 700, busy_end = 710\<rparr>] 60 =
        Some free_slots' \<and>
      free_slots' \<noteq> [] \<and> free_slots' \<noteq> free_slots \<and>
      set free_slots' \<subseteq> set free_slots \<and> subseq free_slots' free_slots)"
proof -
  have pos: "(0::int) < 60" by simp
  have add: "set [\<lparr>busy_start = 600, busy_end = 630\<rparr>, \<lparr>busy_start = 700, busy_end = 710\<rparr>] =
     insert \<lparr>busy_start = 700, busy_end = 710\<rparr> (set [\<lparr>busy_start = 600, busy_end = (630::int)\<rparr>])"
    by auto
  have run: "compute_free_slots \<lparr>start_time = 540, end_time = 720\<rparr>
     [\<lparr>busy_start = 600, busy_end = 630\<rparr>] 60 =
     Some [\<lparr>slot_start = 540, slot_end = 600\<rparr>, \<lparr>slot_start = 660, slot_end = 720\<rparr>]"
    by (simp add: compute_free_slots_def free_slots_loop.simps)
  have run': "compute_free_slots \<lparr>start_time = 540, end_time = 720\<rparr>
     [\<lparr>busy_start = 600, busy_end = 630\<rparr>, \<lparr>busy_start = 700, busy_end = 710\<rparr>] 60 =
     Some [\<lparr>slot_start = 540, slot_end = 600\<rparr>]"
    by (simp add: compute_free_slots_def free_slots_loop.simps)
  show ?thesis
    using pos add run run'
      more_busy_fewer_slots [OF pos add, of "\<lparr>start_time = 540, end_time = 720\<rparr>"]
    by simp
qed

end
